theory Spec2Isabelle
  imports Main "HOL-Library.Word" "HOL-Library.Code_Target_Numeral"
begin

unbundle bit_operations_syntax

section \<open>Data model\<close>

text \<open>
  The compact transaction-output codec of \<^verbatim>\<open>src/compressor.h\<close>. Bytes are
  \<^verbatim>\<open>uint8_t\<close>, the script tag \<^verbatim>\<open>nSize\<close> is an \<^verbatim>\<open>unsigned int\<close> (32 bits,
  arithmetic wraps), compressed amounts are \<^verbatim>\<open>uint64_t\<close>. A script is the sequence of
  its bytes.
\<close>

type_synonym u8 = "8 word"
type_synonym u32 = "32 word"
type_synonym u64 = "64 word"
type_synonym CScript = "u8 list"

text \<open>
  \<^verbatim>\<open>CTxOut\<close>: the amount \<^verbatim>\<open>nValue\<close> and the script \<^verbatim>\<open>scriptPubKey\<close>, the two
  fields \<^verbatim>\<open>CTxOutCompressor::SerializationOp\<close> touches. The amount is kept as its 64-bit
  pattern, the argument type of the codec in the spec (\<^verbatim>\<open>compress(amount: u64)\<close>).
\<close>

record CTxOut =
  nValue :: u64
  scriptPubKey :: CScript

text \<open>
  A read that needs more bytes than the stream holds throws in the source; the exception
  is the only error of the decoder and is modelled as a value.
\<close>

datatype error = EndOfData

text \<open>
  Modelled from the spec: the \<^verbatim>\<open>Stream\<close> template parameter of \<^verbatim>\<open>Serialize\<close> and
  \<^verbatim>\<open>Unserialize\<close> (its class is not among the sources). Section 5 and 6 of the spec
  describe it as an in-memory byte buffer with a read cursor, the flat byte-buffer
  primitive \<^verbatim>\<open>write_bytes\<close>, \<^verbatim>\<open>read_bytes(stream, n)\<close> and a \<^verbatim>\<open>skip(stream, n)\<close>;
  a read or skip past the end is a hard decode failure.
\<close>

record Stream =
  vch :: "u8 list"
  nReadPos :: nat

definition write_bytes :: "Stream \<Rightarrow> u8 list \<Rightarrow> Stream" where
  "write_bytes s bs = s\<lparr>vch := vch s @ bs\<rparr>"

definition read_bytes :: "Stream \<Rightarrow> nat \<Rightarrow> error + (u8 list \<times> Stream)" where
  "read_bytes s n =
     (if nReadPos s + n \<le> length (vch s)
      then Inr (take n (drop (nReadPos s) (vch s)), s\<lparr>nReadPos := nReadPos s + n\<rparr>)
      else Inl EndOfData)"

definition ignore :: "Stream \<Rightarrow> nat \<Rightarrow> error + Stream" where
  "ignore s n =
     (if nReadPos s + n \<le> length (vch s)
      then Inr (s\<lparr>nReadPos := nReadPos s + n\<rparr>)
      else Inl EndOfData)"

text \<open>
  The collaborators the header uses but does not define, taken as parameters of the
  codec: the variable-length integer primitive \<^verbatim>\<open>VARINT\<close> at the two widths the header
  instantiates it (\<^verbatim>\<open>unsigned int nSize\<close>, \<^verbatim>\<open>uint64_t nVal\<close>), the cryptographic
  validity check and point decompression of public keys, and the constant
  \<^verbatim>\<open>MAX_SCRIPT_SIZE_AFTER_GENESIS\<close> of \<^verbatim>\<open>consensus/consensus.h\<close>.
\<close>

record externals =
  WriteVarInt32 :: "u32 \<Rightarrow> u8 list"
  ReadVarInt32 :: "Stream \<Rightarrow> error + (u32 \<times> Stream)"
  WriteVarInt64 :: "u64 \<Rightarrow> u8 list"
  ReadVarInt64 :: "Stream \<Rightarrow> error + (u64 \<times> Stream)"
  IsFullyValid :: "u8 list \<Rightarrow> bool"
  decompress_point :: "u8 list \<Rightarrow> bool \<Rightarrow> u8 list option"
  MAX_SCRIPT_SIZE_AFTER_GENESIS :: nat

section \<open>AmountCodec\<close>

text \<open>
  Modelled from the spec: \<^verbatim>\<open>CTxOutCompressor::CompressAmount\<close> and
  \<^verbatim>\<open>CTxOutCompressor::DecompressAmount\<close> are declared in the header (both over
  \<^verbatim>\<open>uint64_t\<close>) and defined in a file that is not among the sources. Section 4.1:
  strip trailing decimal zero digits, counting them as exponent \<open>e\<close>, and stop once
  \<open>e\<close> reaches 9 even if more zeros remain.
\<close>

function strip_zeros :: "u64 \<Rightarrow> nat \<Rightarrow> u64 \<times> nat" where
  "strip_zeros n e =
     (if n mod 10 = 0 \<and> e < 9 then strip_zeros (n div 10) (Suc e) else (n, e))"
  by pat_completeness auto
termination
  by (relation "measure (\<lambda>(n, e). 9 - e)") auto

declare strip_zeros.simps [simp del]

text \<open>
  Modelled from the spec: amount 0 compresses to 0; if \<open>e < 9\<close>, with \<open>d\<close> the last
  remaining digit and \<open>n\<close> the stripped value without it, the compressed form is
  \<open>1 + (n*9 + (d-1))*10 + e\<close>; if \<open>e = 9\<close> it is \<open>1 + (n-1)*10 + 9\<close>. All arithmetic is
  that of \<^verbatim>\<open>uint64_t\<close>.
\<close>

definition CompressAmount :: "u64 \<Rightarrow> u64" where
  "CompressAmount nAmount =
     (if nAmount = 0 then 0
      else case strip_zeros nAmount 0 of (n, e) \<Rightarrow>
        if e < 9 then
          (let d = n mod 10; n' = n div 10 in 1 + (n' * 9 + (d - 1)) * 10 + of_nat e)
        else 1 + (n - 1) * 10 + 9)"

text \<open>
  Modelled from the spec: compressed 0 decompresses to 0; otherwise subtract 1, split
  off \<open>e\<close> by div/mod 10; when \<open>e < 9\<close> the digit is \<open>(x mod 9) + 1\<close>, the rest
  \<open>x div 9\<close>, and the amount is \<open>n*10 + d\<close> scaled by \<open>10^e\<close>; when \<open>e = 9\<close> the
  amount is \<open>(n+1) * 10^9\<close>.
\<close>

definition DecompressAmount :: "u64 \<Rightarrow> u64" where
  "DecompressAmount x =
     (if x = 0 then 0
      else let x1 = x - 1; e = unat (x1 mod 10); q = x1 div 10 in
        if e < 9 then (let d = q mod 9 + 1; n = q div 9 in (n * 10 + d) * 10 ^ e)
        else (q + 1) * 10 ^ 9)"

text \<open>
  The same two transforms over unbounded naturals, where nothing wraps. They are the
  yardstick for the 64-bit functions: a 64-bit run agrees with them as long as no
  intermediate value exceeds \<open>2^64 - 1\<close>.
\<close>

function strip_zeros_nat :: "nat \<Rightarrow> nat \<Rightarrow> nat \<times> nat" where
  "strip_zeros_nat n e =
     (if n mod 10 = 0 \<and> e < 9 then strip_zeros_nat (n div 10) (Suc e) else (n, e))"
  by pat_completeness auto
termination
  by (relation "measure (\<lambda>(n, e). 9 - e)") auto

declare strip_zeros_nat.simps [simp del]

definition CompressAmount_nat :: "nat \<Rightarrow> nat" where
  "CompressAmount_nat a =
     (if a = 0 then 0
      else case strip_zeros_nat a 0 of (n, e) \<Rightarrow>
        if e < 9 then 1 + ((n div 10) * 9 + (n mod 10 - 1)) * 10 + e
        else 1 + (n - 1) * 10 + 9)"

definition DecompressAmount_nat :: "nat \<Rightarrow> nat" where
  "DecompressAmount_nat x =
     (if x = 0 then 0
      else let x1 = x - 1; e = x1 mod 10; q = x1 div 10 in
        if e < 9 then ((q div 9) * 10 + (q mod 9 + 1)) * 10 ^ e
        else (q + 1) * 10 ^ 9)"

text \<open>
  The exponent of section 4.1 said without a loop: the number of trailing decimal
  zeros of the amount, capped at 9.
\<close>

definition trailing_zeros_capped :: "nat \<Rightarrow> nat" where
  "trailing_zeros_capped a = Max {k \<in> {0..9}. 10 ^ k dvd a}"

section \<open>ScriptCodec\<close>

text \<open>
  Modelled from the spec: the opcode constants of \<^verbatim>\<open>script/script.h\<close> (not among the
  sources), with the byte values of the script language. \<^verbatim>\<open>OP_FALSE\<close> and
  \<^verbatim>\<open>OP_RETURN\<close> are the two opcodes the decoder writes for an overly long script.
\<close>

definition OP_FALSE :: u8 where "OP_FALSE = 0x00"
definition OP_RETURN :: u8 where "OP_RETURN = 0x6a"
definition OP_DUP :: u8 where "OP_DUP = 0x76"
definition OP_EQUAL :: u8 where "OP_EQUAL = 0x87"
definition OP_EQUALVERIFY :: u8 where "OP_EQUALVERIFY = 0x88"
definition OP_HASH160 :: u8 where "OP_HASH160 = 0xa9"
definition OP_CHECKSIG :: u8 where "OP_CHECKSIG = 0xac"

text \<open>\<^verbatim>\<open>static const unsigned int nSpecialScripts = 6;\<close>\<close>

definition nSpecialScripts :: u32 where
  "nSpecialScripts = 6"

text \<open>
  Modelled from the spec: \<^verbatim>\<open>IsToKeyID\<close>, \<^verbatim>\<open>IsToScriptID\<close>, \<^verbatim>\<open>IsToPubKey\<close>,
  \<^verbatim>\<open>Compress\<close>, \<^verbatim>\<open>GetSpecialSize\<close> and \<^verbatim>\<open>Decompress\<close> are declared in the header
  and defined in a file that is not among the sources. Section 4.2, detection, first
  match wins, all exact byte patterns: the 5-opcode pay-to-public-key-hash template
  around a 20-byte hash; the 3-opcode pay-to-script-hash template around a 20-byte
  hash; \<^verbatim>\<open><public-key-bytes> CHECKSIG\<close> with a valid key of 33 bytes starting with
  0x02 or 0x03, or of 65 bytes starting with 0x04. The \<^verbatim>\<open>bool\<close> result with an output
  reference is an option.
\<close>

definition IsToKeyID :: "CScript \<Rightarrow> u8 list option" where
  "IsToKeyID script =
     (if length script = 25 \<and> script ! 0 = OP_DUP \<and> script ! 1 = OP_HASH160
         \<and> script ! 2 = 20 \<and> script ! 23 = OP_EQUALVERIFY \<and> script ! 24 = OP_CHECKSIG
      then Some (take 20 (drop 3 script)) else None)"

definition IsToScriptID :: "CScript \<Rightarrow> u8 list option" where
  "IsToScriptID script =
     (if length script = 23 \<and> script ! 0 = OP_HASH160 \<and> script ! 1 = 20
         \<and> script ! 22 = OP_EQUAL
      then Some (take 20 (drop 2 script)) else None)"

definition IsToPubKey :: "externals \<Rightarrow> CScript \<Rightarrow> u8 list option" where
  "IsToPubKey E script =
     (if length script = 35 \<and> script ! 0 = 33 \<and> script ! 34 = OP_CHECKSIG
         \<and> (script ! 1 = 0x02 \<or> script ! 1 = 0x03)
         \<and> IsFullyValid E (take 33 (drop 1 script))
      then Some (take 33 (drop 1 script))
      else if length script = 67 \<and> script ! 0 = 65 \<and> script ! 66 = OP_CHECKSIG
         \<and> script ! 1 = 0x04 \<and> IsFullyValid E (take 65 (drop 1 script))
      then Some (take 65 (drop 1 script))
      else None)"

text \<open>
  Modelled from the spec: tag 0 and 1 carry the 20-byte hash; tag 2 or 3 is the first
  byte of a 33-byte key and carries the 32 bytes after it; a 65-byte key gets tag 4
  when its last byte is even and tag 5 when it is odd, and carries the 32-byte
  X-coordinate (bytes 1..33). The output vector is the tag byte followed by the payload,
  which \<^verbatim>\<open>Serialize\<close> writes flat.
\<close>

definition Compress :: "externals \<Rightarrow> CScript \<Rightarrow> u8 list option" where
  "Compress E script =
     (case IsToKeyID script of
        Some hash \<Rightarrow> Some (0x00 # hash)
      | None \<Rightarrow>
     (case IsToScriptID script of
        Some hash \<Rightarrow> Some (0x01 # hash)
      | None \<Rightarrow>
     (case IsToPubKey E script of
        Some pubkey \<Rightarrow>
          if pubkey ! 0 = 0x02 \<or> pubkey ! 0 = 0x03
          then Some (pubkey ! 0 # take 32 (drop 1 pubkey))
          else if pubkey ! 0 = 0x04
          then Some ((if even (unat (pubkey ! 64)) then 0x04 else 0x05) # take 32 (drop 1 pubkey))
          else None
      | None \<Rightarrow> None)))"

text \<open>
  Modelled from the spec: \<^verbatim>\<open>special_payload_size(tag)\<close>: tags 0,1 give 20; tags
  2,3,4,5 give 32. The spec gives no value for other tags; they get 0 here, and the
  decoder never asks for them.
\<close>

definition GetSpecialSize :: "u32 \<Rightarrow> nat" where
  "GetSpecialSize nSize =
     (if nSize = 0 \<or> nSize = 1 then 20
      else if nSize = 2 \<or> nSize = 3 \<or> nSize = 4 \<or> nSize = 5 then 32
      else 0)"

text \<open>
  Modelled from the spec: decode protocol of section 4.2. Tags 0 and 1 rebuild the fixed
  template around the 20 bytes; tags 2 and 3 rebuild the 33-byte key with the recorded
  prefix and wrap it in \<^verbatim>\<open><key> CHECKSIG\<close>; tags 4 and 5 call the external point
  decompression with the recorded parity and wrap the 65-byte key. The result is the
  \<^verbatim>\<open>bool\<close> of the header and the script the compressor is bound to afterwards; where
  the spec names no result (the primitive fails, or the tag is none of 0..5) the script
  is returned as it was.
\<close>

definition Decompress :: "externals \<Rightarrow> u32 \<Rightarrow> u8 list \<Rightarrow> CScript \<Rightarrow> bool \<times> CScript" where
  "Decompress E nSize vch_in script =
     (if nSize = 0 then
        (True, [OP_DUP, OP_HASH160, 20] @ vch_in @ [OP_EQUALVERIFY, OP_CHECKSIG])
      else if nSize = 1 then
        (True, [OP_HASH160, 20] @ vch_in @ [OP_EQUAL])
      else if nSize = 2 \<or> nSize = 3 then
        (True, [33, ucast nSize] @ vch_in @ [OP_CHECKSIG])
      else if nSize = 4 \<or> nSize = 5 then
        (case decompress_point E vch_in (nSize = 5) of
           Some pubkey \<Rightarrow> (True, [65] @ pubkey @ [OP_CHECKSIG])
         | None \<Rightarrow> (False, script))
      else (False, script))"

text \<open>
  \<^verbatim>\<open>CScriptCompressor::Serialize\<close>: the compressed form written flat when \<^verbatim>\<open>Compress\<close>
  succeeds; otherwise \<^verbatim>\<open>unsigned int nSize = script.size() + nSpecialScripts\<close> as a
  varint, then the script bytes.
\<close>

definition Serialize :: "externals \<Rightarrow> CScript \<Rightarrow> Stream \<Rightarrow> Stream" where
  "Serialize E script s =
     (case Compress E script of
        Some compr \<Rightarrow> write_bytes s compr
      | None \<Rightarrow>
          (let nSize = (of_nat (length script) + nSpecialScripts :: u32) in
           write_bytes (write_bytes s (WriteVarInt32 E nSize)) script))"

text \<open>
  \<^verbatim>\<open>NonSpecialScriptUnserializer<Stream>::Unserialize\<close>, the unspecialised template:
  \<^verbatim>\<open>self->script.resize(nSize); s >> REF(CFlatData(self->script));\<close>. The resize keeps
  the first bytes of the script and pads with zeros; the flat read then overwrites all
  \<^verbatim>\<open>script.size()\<close> bytes.
\<close>

definition resize :: "CScript \<Rightarrow> nat \<Rightarrow> CScript" where
  "resize script n = take n script @ replicate (n - length script) 0"

definition NonSpecialScriptUnserializer ::
  "CScript \<Rightarrow> Stream \<Rightarrow> u32 \<Rightarrow> error + (CScript \<times> Stream)" where
  "NonSpecialScriptUnserializer script s nSize =
     (let script1 = resize script (unat nSize) in
      case read_bytes s (length script1) of
        Inl e \<Rightarrow> Inl e
      | Inr (bs, s') \<Rightarrow> Inr (bs, s'))"

text \<open>
  \<^verbatim>\<open>CScriptCompressor::Unserialize\<close>. The first argument is the script the compressor
  is bound to when the call starts; the result is that script afterwards and the
  stream. \<^verbatim>\<open>script << OP_FALSE << OP_RETURN\<close> pushes the two opcode bytes at the end of
  the script. The \<^verbatim>\<open>bool\<close> of \<^verbatim>\<open>Decompress\<close> is dropped, as in the source.
\<close>

definition Unserialize :: "externals \<Rightarrow> CScript \<Rightarrow> Stream \<Rightarrow> error + (CScript \<times> Stream)" where
  "Unserialize E script s =
     (case ReadVarInt32 E s of
        Inl e \<Rightarrow> Inl e
      | Inr (nSize, s1) \<Rightarrow>
          if nSize < nSpecialScripts then
            (case read_bytes s1 (GetSpecialSize nSize) of
               Inl e \<Rightarrow> Inl e
             | Inr (vch_in, s2) \<Rightarrow> Inr (snd (Decompress E nSize vch_in script), s2))
          else
            (let nSize' = nSize - nSpecialScripts in
             if unat nSize' > MAX_SCRIPT_SIZE_AFTER_GENESIS E then
               (let script1 = script @ [OP_FALSE, OP_RETURN] in
                case ignore s1 (unat nSize') of
                  Inl e \<Rightarrow> Inl e
                | Inr s2 \<Rightarrow> Inr (script1, s2))
             else NonSpecialScriptUnserializer script s1 nSize'))"

text \<open>
  The number of payload bytes a tag declares: the fixed size of a special tag, the
  shifted length of a raw one.
\<close>

definition payload_length :: "u32 \<Rightarrow> nat" where
  "payload_length nSize =
     (if nSize < nSpecialScripts then GetSpecialSize nSize
      else unat (nSize - nSpecialScripts))"

section \<open>TransactionOutputCodec\<close>

text \<open>
  \<^verbatim>\<open>CTxOutCompressor::SerializationOp\<close>, once for each \<^verbatim>\<open>ser_action\<close>: writing
  (\<^verbatim>\<open>!ser_action.ForRead()\<close>) and reading.
\<close>

definition SerializationOp_write :: "externals \<Rightarrow> CTxOut \<Rightarrow> Stream \<Rightarrow> Stream" where
  "SerializationOp_write E txout s =
     (let nVal = CompressAmount (nValue txout);
          s1 = write_bytes s (WriteVarInt64 E nVal)
      in Serialize E (scriptPubKey txout) s1)"

definition SerializationOp_read ::
  "externals \<Rightarrow> CTxOut \<Rightarrow> Stream \<Rightarrow> error + (CTxOut \<times> Stream)" where
  "SerializationOp_read E txout s =
     (case ReadVarInt64 E s of
        Inl e \<Rightarrow> Inl e
      | Inr (nVal, s1) \<Rightarrow>
          (let txout1 = txout\<lparr>nValue := DecompressAmount nVal\<rparr> in
           case Unserialize E (scriptPubKey txout1) s1 of
             Inl e \<Rightarrow> Inl e
           | Inr (script', s2) \<Rightarrow> Inr (txout1\<lparr>scriptPubKey := script'\<rparr>, s2)))"

section \<open>An instance of the collaborators\<close>

text \<open>
  Modelled from the spec: the variable-length integer primitive (section 6:
  \<^verbatim>\<open>write_varint\<close>, \<^verbatim>\<open>read_varint\<close>, assumed given; \<^verbatim>\<open>serialize.h\<close> is not among the
  sources). The codec above and every general theorem below take the primitive as a
  parameter. The instance here is only used to run the codec on concrete streams: the
  base-128 encoding, most significant group first, every byte but the last with its top
  bit set, and one subtracted from the remaining value at each continuation. It fits
  the sizes the header's class comment gives: scripts up to 121 bytes take a 1-byte
  tag and scripts up to 16505 bytes a 2-byte tag (\<open>121 + 6 = 127\<close>,
  \<open>16505 + 6 = 16511\<close>).
\<close>

function WriteVarInt :: "nat \<Rightarrow> bool \<Rightarrow> u8 list" where
  "WriteVarInt n cont =
     (let b = of_nat (n mod 128) OR (if cont then 0x80 else 0x00) in
      if n \<le> 127 then [b] else WriteVarInt (n div 128 - 1) True @ [b])"
  by pat_completeness auto
termination
  by (relation "measure (\<lambda>(n, cont). n)") auto

declare WriteVarInt.simps [simp del]

fun ReadVarInt :: "u8 list \<Rightarrow> 'a::len word \<Rightarrow> ('a word \<times> nat) option" where
  "ReadVarInt [] n = None"
| "ReadVarInt (chData # rest) n =
     (let n' = push_bit 7 n OR ucast (chData AND 0x7F) in
      if chData AND 0x80 = 0 then Some (n', 1)
      else map_option (\<lambda>(v, k). (v, Suc k)) (ReadVarInt rest (n' + 1)))"

definition ReadVarInt_stream :: "Stream \<Rightarrow> error + ('a::len word \<times> Stream)" where
  "ReadVarInt_stream s =
     (case ReadVarInt (drop (nReadPos s) (vch s)) 0 of
        None \<Rightarrow> Inl EndOfData
      | Some (v, k) \<Rightarrow> Inr (v, s\<lparr>nReadPos := nReadPos s + k\<rparr>))"

text \<open>
  The instance: the varint above at both widths, a validity check that accepts every
  key, a point decompression that only knows the key made of the prefix 0x04, 32 bytes
  0x01 and 32 bytes equal to the parity, and the maximum script size given as argument.
\<close>

definition sample_point :: "bool \<Rightarrow> u8 list" where
  "sample_point odd_y = 0x04 # replicate 32 0x01 @ replicate 32 (if odd_y then 0x01 else 0x00)"

definition sample_externals :: "nat \<Rightarrow> externals" where
  "sample_externals max_size =
     \<lparr> WriteVarInt32 = (\<lambda>n. WriteVarInt (unat n) False),
       ReadVarInt32 = ReadVarInt_stream,
       WriteVarInt64 = (\<lambda>n. WriteVarInt (unat n) False),
       ReadVarInt64 = ReadVarInt_stream,
       IsFullyValid = (\<lambda>key. True),
       decompress_point = (\<lambda>x odd_y.
          if x = replicate 32 0x01 then Some (sample_point odd_y) else None),
       MAX_SCRIPT_SIZE_AFTER_GENESIS = max_size \<rparr>"

section \<open>Properties of the AmountCodec\<close>

text \<open>
  The stripping loop: the exponent stays within 0..9, the stripped value times
  \<open>10^e\<close> is the amount, and below the cap the last digit is not zero. The 64-bit
  loop only divides, so it agrees with the loop over naturals.
\<close>

lemma strip_zeros_nat_props:
  "strip_zeros_nat n e = (n', e') \<Longrightarrow> e \<le> 9 \<Longrightarrow>
     e \<le> e' \<and> e' \<le> 9 \<and> n = n' * 10 ^ (e' - e) \<and> (e' < 9 \<longrightarrow> n' mod 10 \<noteq> 0)"
proof (induction n e arbitrary: n' e' rule: strip_zeros_nat.induct)
  case (1 n e)
  show ?case
  proof (cases "n mod 10 = 0 \<and> e < 9")
    case True
    then have rec: "strip_zeros_nat (n div 10) (Suc e) = (n', e')"
      using "1.prems"(1) by (subst (asm) strip_zeros_nat.simps) simp
    from "1.IH" [OF True rec] True
    have ih: "Suc e \<le> e'" "e' \<le> 9" "n div 10 = n' * 10 ^ (e' - Suc e)"
      "e' < 9 \<longrightarrow> n' mod 10 \<noteq> 0" by auto
    have "n = (n div 10) * 10" using True by presburger
    also have "\<dots> = n' * 10 ^ (e' - Suc e) * 10" using ih(3) by simp
    also have "\<dots> = n' * 10 ^ (Suc (e' - Suc e))" by simp
    also have "Suc (e' - Suc e) = e' - e" using ih(1) by simp
    finally show ?thesis using ih by simp
  next
    case False
    then have "(n', e') = (n, e)"
      using "1.prems"(1) by (subst (asm) strip_zeros_nat.simps) (simp split: if_splits)
    then show ?thesis using False "1.prems"(2) by auto
  qed
qed

lemma strip_zeros_unat:
  "strip_zeros_nat (unat n) e = (case strip_zeros n e of (n', e') \<Rightarrow> (unat n', e'))"
proof (induction n e rule: strip_zeros.induct)
  case (1 n e)
  have m: "(n mod 10 = 0) = (unat n mod 10 = 0)"
    by (simp add: unat_mod_distrib word_unat_eq_iff)
  show ?case
  proof (cases "n mod 10 = 0 \<and> e < 9")
    case True
    then show ?thesis
      using "1.IH" m
      by (subst strip_zeros_nat.simps, subst strip_zeros.simps) (simp add: unat_div_distrib)
  next
    case False
    then show ?thesis
      using m by (subst strip_zeros_nat.simps, subst strip_zeros.simps) auto
  qed
qed

lemma roundtrip_nat: "DecompressAmount_nat (CompressAmount_nat a) = a"
proof (cases "a = 0")
  case True
  then show ?thesis by (simp add: CompressAmount_nat_def DecompressAmount_nat_def)
next
  case False
  obtain n e where s: "strip_zeros_nat a 0 = (n, e)" by (cases "strip_zeros_nat a 0")
  from strip_zeros_nat_props [OF s] have
    p: "e \<le> 9" "a = n * 10 ^ e" "e < 9 \<longrightarrow> n mod 10 \<noteq> 0" by auto
  have npos: "0 < n" using False p(2) by (cases n) auto
  show ?thesis
  proof (cases "e < 9")
    case True
    define d where "d = n mod 10"
    define m where "m = n div 10"
    have d: "1 \<le> d" "d \<le> 9" using p(3) True by (auto simp: d_def)
    have c: "CompressAmount_nat a = 1 + ((m * 9 + (d - 1)) * 10 + e)"
      using False s True by (simp add: CompressAmount_nat_def d_def m_def)
    define j where "j = d - 1"
    define k where "k = m * 9 + j"
    have j: "j < 9" using d by (simp add: j_def)
    have e1: "(k * 10 + e) mod 10 = e" using True by simp
    have e2: "(k * 10 + e) div 10 = k" using True by simp
    have e3: "k mod 9 = j" using j unfolding k_def by simp
    have e4: "k div 9 = m" using j unfolding k_def by simp
    have c': "CompressAmount_nat a = Suc (k * 10 + e)" using c by (simp add: k_def j_def)
    have "DecompressAmount_nat (Suc (k * 10 + e)) = (m * 10 + (j + 1)) * 10 ^ e"
      unfolding DecompressAmount_nat_def Let_def diff_Suc_1 e1 e2 e3 e4 using True by simp
    also have "m * 10 + (j + 1) = n" using d by (simp add: d_def m_def j_def)
    finally show ?thesis using p(2) c' by simp
  next
    case False
    then have e9: "e = 9" using p(1) by simp
    define k where "k = n - 1"
    have c: "CompressAmount_nat a = Suc (k * 10 + 9)"
      using \<open>a \<noteq> 0\<close> s e9 by (simp add: CompressAmount_nat_def k_def)
    have e1: "(k * 10 + 9) mod 10 = 9" by simp
    have e2: "(k * 10 + 9) div 10 = k" by simp
    have "DecompressAmount_nat (Suc (k * 10 + 9)) = (k + 1) * 10 ^ 9"
      unfolding DecompressAmount_nat_def Let_def diff_Suc_1 e1 e2 by simp
    moreover have "k + 1 = n" using npos by (simp add: k_def)
    ultimately show ?thesis using p(2) e9 c by simp
  qed
qed

lemma word_div_as_nat: "(w :: 'a::len word) div v = of_nat (unat w div unat v)"
  by (simp add: unat_div_distrib [symmetric])

lemma word_mod_as_nat: "(w :: 'a::len word) mod v = of_nat (unat w mod unat v)"
  by (simp add: unat_mod_distrib [symmetric])

lemma CompressAmount_of_nat: "CompressAmount a = of_nat (CompressAmount_nat (unat a))"
proof (cases "a = 0")
  case True
  then show ?thesis by (simp add: CompressAmount_def CompressAmount_nat_def)
next
  case False
  then have nz: "unat a \<noteq> 0" by (simp add: unat_eq_0)
  obtain n e where s: "strip_zeros a 0 = (n, e)" by (cases "strip_zeros a 0")
  then have sn: "strip_zeros_nat (unat a) 0 = (unat n, e)"
    by (simp add: strip_zeros_unat)
  from strip_zeros_nat_props [OF sn] have
    p: "e \<le> 9" "unat a = unat n * 10 ^ e" "e < 9 \<longrightarrow> unat n mod 10 \<noteq> 0" by auto
  have npos: "1 \<le> unat n" using nz p(2) by (cases "unat n") auto
  have n1: "n - 1 = of_nat (unat n - 1)" using npos by (simp add: of_nat_diff)
  have dv: "n div 10 = of_nat (unat n div 10)" by (simp add: word_div_as_nat)
  have md: "n mod 10 = of_nat (unat n mod 10)" by (simp add: word_mod_as_nat)
  show ?thesis
  proof (cases "e < 9")
    case True
    then have "1 \<le> unat n mod 10" using p(3) by simp
    then have d1: "n mod 10 - 1 = of_nat (unat n mod 10 - 1)"
      unfolding md by (simp add: of_nat_diff)
    have "CompressAmount a = 1 + (n div 10 * 9 + (n mod 10 - 1)) * 10 + of_nat e"
      using False s True by (simp add: CompressAmount_def Let_def)
    also have "\<dots> = of_nat (1 + ((unat n div 10) * 9 + (unat n mod 10 - 1)) * 10 + e)"
      unfolding d1 dv by simp
    also have "1 + ((unat n div 10) * 9 + (unat n mod 10 - 1)) * 10 + e
                 = CompressAmount_nat (unat a)"
      using nz sn True by (simp add: CompressAmount_nat_def)
    finally show ?thesis .
  next
    case e9: False
    have "CompressAmount a = 1 + (n - 1) * 10 + 9"
      using False s e9 by (simp add: CompressAmount_def)
    also have "\<dots> = of_nat (1 + (unat n - 1) * 10 + 9)"
      unfolding n1 by simp
    also have "1 + (unat n - 1) * 10 + 9 = CompressAmount_nat (unat a)"
      using nz sn e9 by (simp add: CompressAmount_nat_def)
    finally show ?thesis .
  qed
qed

lemma DecompressAmount_of_nat: "DecompressAmount x = of_nat (DecompressAmount_nat (unat x))"
proof (cases "x = 0")
  case True
  then show ?thesis by (simp add: DecompressAmount_def DecompressAmount_nat_def)
next
  case False
  then have nz: "unat x \<noteq> 0" by (simp add: unat_eq_0)
  define y where "y = unat x - 1"
  have u1: "unat (x - 1) = y"
    using nz unfolding y_def by (simp add: unat_minus_one False)
  have e: "unat ((x - 1) mod 10) = y mod 10" by (simp add: unat_mod_distrib u1)
  have q: "(x - 1) div 10 = of_nat (y div 10)" by (simp add: word_div_as_nat u1)
  have uq: "unat ((x - 1) div 10) = y div 10" by (simp add: unat_div_distrib u1)
  have q9: "(x - 1) div 10 div 9 = of_nat (y div 10 div 9)"
    by (simp add: word_div_as_nat [of "(x - 1) div 10"] uq)
  have m9: "(x - 1) div 10 mod 9 = of_nat (y div 10 mod 9)"
    by (simp add: word_mod_as_nat [of "(x - 1) div 10"] uq)
  show ?thesis
  proof (cases "y mod 10 < 9")
    case True
    have "DecompressAmount x = ((x - 1) div 10 div 9 * 10 + ((x - 1) div 10 mod 9 + 1)) * 10 ^ (y mod 10)"
      using False True by (simp add: DecompressAmount_def Let_def e)
    also have "\<dots> = of_nat (((y div 10 div 9) * 10 + (y div 10 mod 9 + 1)) * 10 ^ (y mod 10))"
      unfolding q9 m9 by (simp add: algebra_simps)
    also have "((y div 10 div 9) * 10 + (y div 10 mod 9 + 1)) * 10 ^ (y mod 10)
                 = DecompressAmount_nat (unat x)"
      using nz True by (simp add: DecompressAmount_nat_def Let_def y_def)
    finally show ?thesis .
  next
    case e9: False
    have "DecompressAmount x = ((x - 1) div 10 + 1) * 10 ^ 9"
      using False e9 by (simp add: DecompressAmount_def Let_def e)
    also have "\<dots> = of_nat ((y div 10 + 1) * 10 ^ 9)"
      unfolding q by simp
    also have "(y div 10 + 1) * 10 ^ 9 = DecompressAmount_nat (unat x)"
      using nz e9 by (simp add: DecompressAmount_nat_def Let_def y_def)
    finally show ?thesis .
  qed
qed

lemma roundtrip_word:
  assumes "CompressAmount_nat (unat a) < 2 ^ 64"
  shows "DecompressAmount (CompressAmount a) = a"
proof -
  have "unat (CompressAmount a) = CompressAmount_nat (unat a)"
    unfolding CompressAmount_of_nat using assms by (simp add: unat_of_nat)
  then have "DecompressAmount (CompressAmount a) = of_nat (unat a)"
    by (simp add: DecompressAmount_of_nat roundtrip_nat)
  then show ?thesis by simp
qed

lemma ten_power_ge: "Suc e \<le> 10 ^ e"
  by (induction e) auto

lemma CompressAmount_nat_le: "CompressAmount_nat a \<le> 9 * a"
proof (cases "a = 0")
  case True
  then show ?thesis by (simp add: CompressAmount_nat_def)
next
  case False
  obtain n e where s: "strip_zeros_nat a 0 = (n, e)" by (cases "strip_zeros_nat a 0")
  from strip_zeros_nat_props [OF s] have
    p: "e \<le> 9" "a = n * 10 ^ e" "e < 9 \<longrightarrow> n mod 10 \<noteq> 0" by auto
  have npos: "1 \<le> n" using False p(2) by (cases n) auto
  have "n * Suc e \<le> n * 10 ^ e" by (rule mult_le_mono2) (rule ten_power_ge)
  then have "n + n * e \<le> a" using p(2) by simp
  moreover have "e \<le> n * e" using npos by simp
  ultimately have a: "n + e \<le> a" by linarith
  define m where "m = n div 10"
  define d where "d = n mod 10"
  have n: "n = 10 * m + d" by (simp add: m_def d_def)
  have d9: "d \<le> 9" by (simp add: d_def)
  show ?thesis
  proof (cases "e < 9")
    case True
    then have d1: "1 \<le> d" using p(3) by (simp add: d_def)
    have "CompressAmount_nat a = 1 + (m * 9 + (d - 1)) * 10 + e"
      using False s True by (simp add: CompressAmount_nat_def m_def d_def)
    moreover have "(m * 9 + (d - 1)) * 10 + 10 = 90 * m + 10 * d"
      using d1 by (simp add: algebra_simps)
    ultimately have "CompressAmount_nat a + 9 = 90 * m + 10 * d + e" by linarith
    then show ?thesis using d9 a n by linarith
  next
    case e9: False
    have "CompressAmount_nat a = 1 + (n - 1) * 10 + 9"
      using False s e9 by (simp add: CompressAmount_nat_def)
    moreover have "(n - 1) * 10 + 10 = 10 * n"
      using npos by (simp add: algebra_simps)
    ultimately have "CompressAmount_nat a = 10 * n" by linarith
    moreover have "e = 9" using e9 p(1) by simp
    then have "a = n * 1000000000" using p(2) by simp
    ultimately show ?thesis by linarith
  qed
qed


lemma trailing_zeros_capped_eq:
  assumes "0 < n" "e \<le> 9" "e < 9 \<longrightarrow> n mod 10 \<noteq> 0"
  shows "trailing_zeros_capped (n * 10 ^ e) = e"
  unfolding trailing_zeros_capped_def
proof (rule Max_eqI)
  show "finite {k \<in> {0..9}. 10 ^ k dvd n * 10 ^ e}" by simp
  show "e \<in> {k \<in> {0..9}. 10 ^ k dvd n * 10 ^ e}" using assms(2) by simp
  fix k assume "k \<in> {k \<in> {0..9}. 10 ^ k dvd n * 10 ^ e}"
  then have k: "k \<le> 9" "10 ^ k dvd n * 10 ^ e" by auto
  show "k \<le> e"
  proof (rule ccontr)
    assume "\<not> k \<le> e"
    then have ke: "Suc e \<le> k" by simp
    then have "e < 9" using k(1) by simp
    then have nd: "n mod 10 \<noteq> 0" using assms(3) by simp
    have "(10::nat) ^ Suc e dvd 10 ^ k" using ke by (rule le_imp_power_dvd)
    then have "(10::nat) ^ Suc e dvd n * 10 ^ e" using k(2) by (rule dvd_trans)
    then have "10 * 10 ^ e dvd n * (10::nat) ^ e" by simp
    then have "10 dvd n" by simp
    then show False using nd by presburger
  qed
qed

lemma unat_ten_power: "e \<le> 9 \<Longrightarrow> unat ((10::u64) ^ e) = 10 ^ e"
proof -
  assume e: "e \<le> 9"
  have "(10::nat) ^ e \<le> 10 ^ 9" using e by (intro power_increasing) auto
  then have lt: "(10::nat) ^ e < 2 ^ 64" by simp
  have "(10::u64) ^ e = of_nat (10 ^ e)" by simp
  then show ?thesis using lt by (simp only: unat_of_nat) simp
qed

lemma strip_zeros_closed_form:
  assumes "a \<noteq> 0"
  shows "strip_zeros a 0 =
           (a div 10 ^ trailing_zeros_capped (unat a), trailing_zeros_capped (unat a))"
proof -
  have nz: "unat a \<noteq> 0" using assms by (simp add: unat_eq_0)
  obtain n e where s: "strip_zeros a 0 = (n, e)" by (cases "strip_zeros a 0")
  then have sn: "strip_zeros_nat (unat a) 0 = (unat n, e)"
    by (simp add: strip_zeros_unat)
  from strip_zeros_nat_props [OF sn] have
    p: "e \<le> 9" "unat a = unat n * 10 ^ e" "e < 9 \<longrightarrow> unat n mod 10 \<noteq> 0" by auto
  have npos: "0 < unat n" using nz p(2) by (cases "unat n") auto
  have tz: "trailing_zeros_capped (unat a) = e"
    unfolding p(2) using npos p(1) p(3) by (rule trailing_zeros_capped_eq)
  have "unat (a div 10 ^ e) = unat a div 10 ^ e"
    by (simp add: unat_div_distrib unat_ten_power [OF p(1)])
  also have "\<dots> = unat n" unfolding p(2) by simp
  finally have "a div 10 ^ e = n" by (simp add: word_unat_eq_iff)
  then show ?thesis using s tz by simp
qed

text \<open>
  Known values of the transform: nothing, one unit, a hundredth of a coin, a coin,
  fifty coins and the whole supply of 21 million coins.
\<close>

lemma CompressAmount_examples:
  "CompressAmount 0 = 0x0 \<and> CompressAmount 1 = 0x1 \<and> CompressAmount 1000000 = 0x7
   \<and> CompressAmount 100000000 = 0x9 \<and> CompressAmount 5000000000 = 0x32
   \<and> CompressAmount 2100000000000000 = 0x1406f40"
  by (simp add: CompressAmount_def strip_zeros.simps)

lemma DecompressAmount_examples:
  "DecompressAmount 0x0 = 0 \<and> DecompressAmount 0x1 = 1 \<and> DecompressAmount 0x7 = 1000000
   \<and> DecompressAmount 0x9 = 100000000 \<and> DecompressAmount 0x32 = 5000000000
   \<and> DecompressAmount 0x1406f40 = 2100000000000000"
  by (simp add: DecompressAmount_def)

text \<open>
  C3. \<^verbatim>\<open>CompressAmount\<close> computes the formula of section 4.1: amount 0 maps to 0;
  otherwise, with \<open>e\<close> the number of trailing decimal zeros capped at 9 and \<open>s\<close> the
  amount without them, the result is \<open>1 + (n*9 + (d-1))*10 + e\<close> for \<open>e < 9\<close>, where
  \<open>d\<close> is the last digit of \<open>s\<close> and \<open>n\<close> is \<open>s\<close> without it, and
  \<open>1 + (s-1)*10 + 9\<close> for \<open>e = 9\<close>. The amount 5000000000 has \<open>e = 9\<close> and
  \<open>s = 5\<close>. The equations are between 64-bit values.
\<close>

theorem CompressAmount_formula:
  "CompressAmount a =
     (if a = 0 then 0
      else let e = trailing_zeros_capped (unat a); s = a div 10 ^ e in
        if e < 9 then 1 + ((s div 10) * 9 + (s mod 10 - 1)) * 10 + of_nat e
        else 1 + (s - 1) * 10 + 9)
   \<and> trailing_zeros_capped (unat (5000000000 :: u64)) = 9
   \<and> CompressAmount 5000000000 = 1 + (5 - 1) * 10 + 9"
proof (intro conjI)
  show "CompressAmount a =
     (if a = 0 then 0
      else let e = trailing_zeros_capped (unat a); s = a div 10 ^ e in
        if e < 9 then 1 + ((s div 10) * 9 + (s mod 10 - 1)) * 10 + of_nat e
        else 1 + (s - 1) * 10 + 9)"
  proof (cases "a = 0")
    case True
    then show ?thesis by (simp add: CompressAmount_def)
  next
    case False
    then show ?thesis
      by (simp add: CompressAmount_def strip_zeros_closed_form Let_def)
  qed
  have "trailing_zeros_capped (5 * 10 ^ 9) = 9"
    by (rule trailing_zeros_capped_eq) simp_all
  then show "trailing_zeros_capped (unat (5000000000 :: u64)) = 9" by simp
  show "CompressAmount 5000000000 = 1 + (5 - 1) * 10 + 9"
    by (simp add: CompressAmount_def strip_zeros.simps)
qed

text \<open>
  C1, as stated, at the largest non-negative signed 64-bit amount \<open>2^63 - 1\<close>: the
  amount has no trailing zero, so the compressed form is about nine times the amount,
  which does not fit in 64 bits; the wrapped value decompresses to another amount.
\<close>

theorem DecompressAmount_CompressAmount_counterexample:
  "DecompressAmount (CompressAmount 9223372036854775807) \<noteq> 9223372036854775807"
  by (simp add: CompressAmount_def DecompressAmount_def strip_zeros.simps)

text \<open>
  C1, amended. For every amount whose compressed form fits in 64 bits,
  \<^verbatim>\<open>DecompressAmount(CompressAmount(a)) = a\<close>; every amount \<open>a\<close> with
  \<open>9 * a < 2^64\<close> is such an amount; on this domain \<^verbatim>\<open>CompressAmount\<close> is
  injective, and on its image \<^verbatim>\<open>DecompressAmount\<close> is its inverse from the other side
  as well.
\<close>

theorem DecompressAmount_CompressAmount:
  "(CompressAmount_nat (unat a) < 2 ^ 64 \<longrightarrow> DecompressAmount (CompressAmount a) = a)
   \<and> (9 * unat a < 2 ^ 64 \<longrightarrow> CompressAmount_nat (unat a) < 2 ^ 64)
   \<and> inj_on CompressAmount {a. CompressAmount_nat (unat a) < 2 ^ 64}
   \<and> (\<forall>x \<in> CompressAmount ` {a. CompressAmount_nat (unat a) < 2 ^ 64}.
         CompressAmount (DecompressAmount x) = x)"
proof (intro conjI impI ballI)
  assume "CompressAmount_nat (unat a) < 2 ^ 64"
  then show "DecompressAmount (CompressAmount a) = a" by (rule roundtrip_word)
next
  assume "9 * unat a < 2 ^ 64"
  then show "CompressAmount_nat (unat a) < 2 ^ 64"
    using CompressAmount_nat_le [of "unat a"] by linarith
next
  show "inj_on CompressAmount {a. CompressAmount_nat (unat a) < 2 ^ 64}"
    by (rule inj_on_inverseI [where g = DecompressAmount]) (simp add: roundtrip_word)
next
  fix x assume "x \<in> CompressAmount ` {a. CompressAmount_nat (unat a) < 2 ^ 64}"
  then obtain b where "CompressAmount_nat (unat b) < 2 ^ 64" "x = CompressAmount b" by auto
  then show "CompressAmount (DecompressAmount x) = x" by (simp add: roundtrip_word)
qed

text \<open>
  The amended round trip at the whole money supply, 21 million coins of \<open>10^8\<close>
  units.
\<close>

theorem DecompressAmount_CompressAmount_witness:
  "9 * unat (2100000000000000 :: u64) < 2 ^ 64
   \<and> CompressAmount_nat (unat (2100000000000000 :: u64)) < 2 ^ 64
   \<and> CompressAmount 2100000000000000 = 21000000
   \<and> DecompressAmount (CompressAmount 2100000000000000) = 2100000000000000
   \<and> CompressAmount 2100000000000000
        \<in> CompressAmount ` {a. CompressAmount_nat (unat a) < 2 ^ 64}
   \<and> CompressAmount (DecompressAmount (CompressAmount 2100000000000000))
        = CompressAmount 2100000000000000"
proof -
  have h: "9 * unat (2100000000000000 :: u64) < 2 ^ 64" by simp
  have c: "CompressAmount 2100000000000000 = 21000000"
    by (simp add: CompressAmount_def strip_zeros.simps)
  note t = DecompressAmount_CompressAmount [of 2100000000000000]
  from t h have n: "CompressAmount_nat (unat (2100000000000000 :: u64)) < 2 ^ 64" by blast
  with t have r: "DecompressAmount (CompressAmount 2100000000000000) = 2100000000000000"
    by blast
  have m: "CompressAmount 2100000000000000
        \<in> CompressAmount ` {a. CompressAmount_nat (unat a) < 2 ^ 64}"
    using n by blast
  with t have "CompressAmount (DecompressAmount (CompressAmount 2100000000000000))
        = CompressAmount 2100000000000000" by blast
  with h n c r m show ?thesis by blast
qed

section \<open>Properties of the ScriptCodec decoder\<close>

text \<open>
  The three branches of \<^verbatim>\<open>Unserialize\<close> once the tag has been read.
\<close>

lemma length_resize: "length (resize script n) = n"
  by (simp add: resize_def)

lemma NonSpecialScriptUnserializer_eq:
  "NonSpecialScriptUnserializer script s nSize = read_bytes s (unat nSize)"
  by (simp add: NonSpecialScriptUnserializer_def length_resize Let_def split: sum.splits)

lemma unser_special:
  assumes "ReadVarInt32 E s = Inr (nSize, s1)" "nSize < nSpecialScripts"
  shows "Unserialize E script s =
           (case read_bytes s1 (GetSpecialSize nSize) of
              Inl e \<Rightarrow> Inl e
            | Inr (vch_in, s2) \<Rightarrow> Inr (snd (Decompress E nSize vch_in script), s2))"
  using assms by (simp add: Unserialize_def)

lemma unser_oversized:
  assumes "ReadVarInt32 E s = Inr (nSize, s1)" "\<not> nSize < nSpecialScripts"
    "MAX_SCRIPT_SIZE_AFTER_GENESIS E < unat (nSize - nSpecialScripts)"
  shows "Unserialize E script s =
           (case ignore s1 (unat (nSize - nSpecialScripts)) of
              Inl e \<Rightarrow> Inl e
            | Inr s2 \<Rightarrow> Inr (script @ [OP_FALSE, OP_RETURN], s2))"
  using assms by (simp add: Unserialize_def Let_def)

lemma unser_raw:
  assumes "ReadVarInt32 E s = Inr (nSize, s1)" "\<not> nSize < nSpecialScripts"
    "\<not> MAX_SCRIPT_SIZE_AFTER_GENESIS E < unat (nSize - nSpecialScripts)"
  shows "Unserialize E script s = read_bytes s1 (unat (nSize - nSpecialScripts))"
  using assms by (simp add: Unserialize_def Let_def NonSpecialScriptUnserializer_eq)

text \<open>
  The sample varint at the sizes of the header's class comment: one byte up to tag 127,
  two bytes up to tag 16511, and what it writes is what it reads.
\<close>

lemma WriteVarInt_sizes:
  "length (WriteVarInt (121 + 6) False) = 1 \<and> length (WriteVarInt (122 + 6) False) = 2
   \<and> length (WriteVarInt (16505 + 6) False) = 2 \<and> length (WriteVarInt (16506 + 6) False) = 3"
  by (simp add: WriteVarInt.simps Let_def)

lemma ReadVarInt_examples:
  "ReadVarInt (WriteVarInt 0 False) (0 :: u32) = Some (0, 1)
   \<and> ReadVarInt (WriteVarInt 127 False) (0 :: u32) = Some (127, 1)
   \<and> ReadVarInt (WriteVarInt 128 False) (0 :: u32) = Some (128, 2)
   \<and> ReadVarInt (WriteVarInt 16511 False) (0 :: u32) = Some (16511, 2)
   \<and> ReadVarInt (WriteVarInt 65535 False) (0 :: u32) = Some (65535, 3)
   \<and> ReadVarInt (WriteVarInt 4294967295 False) (0 :: u32) = Some (4294967295, 5)"
  by (simp add: WriteVarInt.simps Let_def)

lemmas sample_simps =
  sample_externals_def ReadVarInt_stream_def WriteVarInt.simps Let_def nSpecialScripts_def

text \<open>
  C6. \<^verbatim>\<open>GetSpecialSize\<close> is 20 for tags 0 and 1 and 32 for tags 2, 3, 4 and 5, and
  a decode whose tag is below 6 reads exactly \<^verbatim>\<open>GetSpecialSize(tag)\<close> bytes: it fails
  when fewer remain, and otherwise hands exactly the next \<^verbatim>\<open>GetSpecialSize(tag)\<close>
  bytes to \<^verbatim>\<open>Decompress\<close> and moves the cursor by that many.
\<close>

theorem GetSpecialSize_read:
  "GetSpecialSize 0 = 20 \<and> GetSpecialSize 1 = 20 \<and> GetSpecialSize 2 = 32
   \<and> GetSpecialSize 3 = 32 \<and> GetSpecialSize 4 = 32 \<and> GetSpecialSize 5 = 32
   \<and> (ReadVarInt32 E s = Inr (nSize, s1) \<and> nSize < nSpecialScripts \<longrightarrow>
        Unserialize E script s =
          (if nReadPos s1 + GetSpecialSize nSize \<le> length (vch s1)
           then Inr (snd (Decompress E nSize
                       (take (GetSpecialSize nSize) (drop (nReadPos s1) (vch s1))) script),
                     s1\<lparr>nReadPos := nReadPos s1 + GetSpecialSize nSize\<rparr>)
           else Inl EndOfData)
        \<and> GetSpecialSize nSize \<in> {20, 32})"
proof (intro conjI impI)
  assume a: "ReadVarInt32 E s = Inr (nSize, s1) \<and> nSize < nSpecialScripts"
  then show "Unserialize E script s =
          (if nReadPos s1 + GetSpecialSize nSize \<le> length (vch s1)
           then Inr (snd (Decompress E nSize
                       (take (GetSpecialSize nSize) (drop (nReadPos s1) (vch s1))) script),
                     s1\<lparr>nReadPos := nReadPos s1 + GetSpecialSize nSize\<rparr>)
           else Inl EndOfData)"
    by (simp add: unser_special read_bytes_def)
  from a have "unat nSize < 6" by (simp add: nSpecialScripts_def word_less_nat_alt)
  then have "unat nSize \<in> {0, 1, 2, 3, 4, 5}" by auto
  then have "nSize \<in> {0, 1, 2, 3, 4, 5}"
    by (auto simp: word_unat_eq_iff)
  then show "GetSpecialSize nSize \<in> {20, 32}" by (auto simp: GetSpecialSize_def)
qed (simp_all add: GetSpecialSize_def)

text \<open>
  A tag-0 field with a 20-byte hash, followed by a marker byte.
\<close>

theorem GetSpecialSize_read_witness:
  "ReadVarInt32 (sample_externals 10000) \<lparr>vch = 0x00 # replicate 20 0xAB @ [0x2A], nReadPos = 0\<rparr>
     = Inr (0, \<lparr>vch = 0x00 # replicate 20 0xAB @ [0x2A], nReadPos = 1\<rparr>)
   \<and> (0 :: u32) < nSpecialScripts
   \<and> Unserialize (sample_externals 10000) [] \<lparr>vch = 0x00 # replicate 20 0xAB @ [0x2A], nReadPos = 0\<rparr>
     = Inr ([OP_DUP, OP_HASH160, 20] @ replicate 20 0xAB @ [OP_EQUALVERIFY, OP_CHECKSIG],
            \<lparr>vch = 0x00 # replicate 20 0xAB @ [0x2A], nReadPos = 21\<rparr>)"
proof -
  let ?E = "sample_externals 10000"
  let ?s = "\<lparr>vch = 0x00 # replicate 20 0xAB @ [0x2A], nReadPos = 0\<rparr>"
  have h: "ReadVarInt32 ?E ?s = Inr (0, \<lparr>vch = 0x00 # replicate 20 0xAB @ [0x2A], nReadPos = 1\<rparr>)"
    by (simp add: sample_simps)
  have l: "(0 :: u32) < nSpecialScripts" by (simp add: nSpecialScripts_def)
  from GetSpecialSize_read [of ?E ?s 0 "\<lparr>vch = 0x00 # replicate 20 0xAB @ [0x2A], nReadPos = 1\<rparr>" "[]"] h l
  have "Unserialize ?E [] ?s
     = Inr ([OP_DUP, OP_HASH160, 20] @ replicate 20 0xAB @ [OP_EQUALVERIFY, OP_CHECKSIG],
            \<lparr>vch = 0x00 # replicate 20 0xAB @ [0x2A], nReadPos = 21\<rparr>)"
    by (simp add: Decompress_def)
  with h l show ?thesis by blast
qed

text \<open>
  C4. Once the tag has been read, every decode that returns leaves the cursor exactly
  \<^verbatim>\<open>payload_length(tag)\<close> bytes after the tag, in the special, the raw and the
  oversized branch alike, and the buffer untouched; the decode returns whenever that
  many bytes remain, and fails with the stream's error otherwise. So the bytes consumed
  are those of the varint tag plus the declared payload length.
\<close>

theorem Unserialize_cursor:
  assumes "ReadVarInt32 E s = Inr (nSize, s1)"
  shows "(nReadPos s1 + payload_length nSize \<le> length (vch s1) \<longrightarrow>
            (\<exists>script'. Unserialize E script s =
               Inr (script', s1\<lparr>nReadPos := nReadPos s1 + payload_length nSize\<rparr>)))
       \<and> (\<not> nReadPos s1 + payload_length nSize \<le> length (vch s1) \<longrightarrow>
            Unserialize E script s = Inl EndOfData)
       \<and> (\<forall>script' s'. Unserialize E script s = Inr (script', s') \<longrightarrow>
            s' = s1\<lparr>nReadPos := nReadPos s1 + payload_length nSize\<rparr>)
       \<and> (\<forall>script' s'. Unserialize E script s = Inr (script', s')
              \<and> nReadPos s \<le> nReadPos s1 \<longrightarrow>
            vch s' = vch s1 \<and>
            nReadPos s' - nReadPos s = (nReadPos s1 - nReadPos s) + payload_length nSize)"
proof -
  let ?n = "payload_length nSize"
  let ?s' = "s1\<lparr>nReadPos := nReadPos s1 + ?n\<rparr>"
  have ok: "\<exists>script'. Unserialize E script s = Inr (script', ?s')"
    if fits: "nReadPos s1 + ?n \<le> length (vch s1)"
  proof (cases "nSize < nSpecialScripts")
    case True
    then have "?n = GetSpecialSize nSize" by (simp add: payload_length_def)
    then show ?thesis
      using fits by (simp add: unser_special [OF assms True] read_bytes_def)
  next
    case raw: False
    then have n: "?n = unat (nSize - nSpecialScripts)" by (simp add: payload_length_def)
    show ?thesis
    proof (cases "MAX_SCRIPT_SIZE_AFTER_GENESIS E < unat (nSize - nSpecialScripts)")
      case True
      show ?thesis
        using fits n by (simp add: unser_oversized [OF assms raw True] ignore_def)
    next
      case False
      show ?thesis
        using fits n by (simp add: unser_raw [OF assms raw False] read_bytes_def)
    qed
  qed
  have bad: "Unserialize E script s = Inl EndOfData"
    if short: "\<not> nReadPos s1 + ?n \<le> length (vch s1)"
  proof (cases "nSize < nSpecialScripts")
    case True
    then have "?n = GetSpecialSize nSize" by (simp add: payload_length_def)
    then show ?thesis
      using short by (simp add: unser_special [OF assms True] read_bytes_def)
  next
    case raw: False
    then have n: "?n = unat (nSize - nSpecialScripts)" by (simp add: payload_length_def)
    show ?thesis
    proof (cases "MAX_SCRIPT_SIZE_AFTER_GENESIS E < unat (nSize - nSpecialScripts)")
      case True
      show ?thesis
        using short n by (simp add: unser_oversized [OF assms raw True] ignore_def)
    next
      case False
      show ?thesis
        using short n by (simp add: unser_raw [OF assms raw False] read_bytes_def)
    qed
  qed
  have only: "s' = ?s'" if "Unserialize E script s = Inr (script', s')" for script' s'
  proof (cases "nReadPos s1 + ?n \<le> length (vch s1)")
    case True
    from ok [OF True] that show ?thesis by auto
  next
    case False
    from bad [OF False] that show ?thesis by simp
  qed
  have count: "vch s' = vch s1 \<and> nReadPos s' - nReadPos s = (nReadPos s1 - nReadPos s) + ?n"
    if "Unserialize E script s = Inr (script', s') \<and> nReadPos s \<le> nReadPos s1"
    for script' s'
    using only [of script' s'] that by simp
  from ok bad only count show ?thesis by blast
qed

text \<open>
  A raw field of three bytes followed by a marker, and the same field cut short.
\<close>

theorem Unserialize_cursor_witness:
  "ReadVarInt32 (sample_externals 10000) \<lparr>vch = [9, 0x51, 0x52, 0x53, 0x2A], nReadPos = 0\<rparr>
     = Inr (9, \<lparr>vch = [9, 0x51, 0x52, 0x53, 0x2A], nReadPos = 1\<rparr>)
   \<and> payload_length 9 = 3
   \<and> (\<exists>script'. Unserialize (sample_externals 10000) []
                    \<lparr>vch = [9, 0x51, 0x52, 0x53, 0x2A], nReadPos = 0\<rparr>
         = Inr (script', \<lparr>vch = [9, 0x51, 0x52, 0x53, 0x2A], nReadPos = 4\<rparr>))
   \<and> ReadVarInt32 (sample_externals 10000) \<lparr>vch = [9, 0x51], nReadPos = 0\<rparr>
     = Inr (9, \<lparr>vch = [9, 0x51], nReadPos = 1\<rparr>)
   \<and> Unserialize (sample_externals 10000) [] \<lparr>vch = [9, 0x51], nReadPos = 0\<rparr> = Inl EndOfData"
proof -
  let ?E = "sample_externals 10000"
  let ?sA = "\<lparr>vch = [9, 0x51, 0x52, 0x53, 0x2A], nReadPos = 0\<rparr>"
  let ?sB = "\<lparr>vch = [9, 0x51], nReadPos = 0\<rparr>"
  have hA: "ReadVarInt32 ?E ?sA = Inr (9, \<lparr>vch = [9, 0x51, 0x52, 0x53, 0x2A], nReadPos = 1\<rparr>)"
    by (simp add: sample_simps)
  have hB: "ReadVarInt32 ?E ?sB = Inr (9, \<lparr>vch = [9, 0x51], nReadPos = 1\<rparr>)"
    by (simp add: sample_simps)
  have p: "payload_length 9 = 3"
    by (simp add: payload_length_def nSpecialScripts_def)
  from Unserialize_cursor [OF hA, of "[]"] p
  have a: "\<exists>script'. Unserialize ?E [] ?sA
             = Inr (script', \<lparr>vch = [9, 0x51, 0x52, 0x53, 0x2A], nReadPos = 4\<rparr>)"
    by simp
  from Unserialize_cursor [OF hB, of "[]"] p
  have b: "Unserialize ?E [] ?sB = Inl EndOfData"
    by simp
  from hA hB p a b show ?thesis by blast
qed

text \<open>
  C9. In the oversized branch the two placeholder opcodes are pushed at the end of the
  script the compressor is bound to: the result is the old script followed by
  \<^verbatim>\<open>OP_FALSE OP_RETURN\<close>, two bytes longer, and it is the bare placeholder exactly
  when the bound script was empty.
\<close>

theorem Unserialize_oversized_appends:
  assumes "ReadVarInt32 E s = Inr (nSize, s1)"
    and "nSpecialScripts \<le> nSize"
    and "MAX_SCRIPT_SIZE_AFTER_GENESIS E < unat (nSize - nSpecialScripts)"
    and "ignore s1 (unat (nSize - nSpecialScripts)) = Inr s2"
  shows "Unserialize E script s = Inr (script @ [OP_FALSE, OP_RETURN], s2)
       \<and> length (script @ [OP_FALSE, OP_RETURN]) = length script + 2
       \<and> (script @ [OP_FALSE, OP_RETURN] = [OP_FALSE, OP_RETURN] \<longleftrightarrow> script = [])"
proof -
  have raw: "\<not> nSize < nSpecialScripts" using assms(2) by simp
  show ?thesis
    using assms(4) by (simp add: unser_oversized [OF assms(1) raw assms(3)])
qed

text \<open>
  A field that declares 10001 bytes against a maximum of 10000, decoded into a
  one-byte script and into an empty one.
\<close>

theorem Unserialize_oversized_appends_witness:
  "ReadVarInt32 (sample_externals 10000)
       \<lparr>vch = 0xCD # 0x17 # replicate 10001 0xFF @ [0x2A], nReadPos = 0\<rparr>
     = Inr (10007, \<lparr>vch = 0xCD # 0x17 # replicate 10001 0xFF @ [0x2A], nReadPos = 2\<rparr>)
   \<and> nSpecialScripts \<le> 10007
   \<and> MAX_SCRIPT_SIZE_AFTER_GENESIS (sample_externals 10000) < unat (10007 - nSpecialScripts)
   \<and> Unserialize (sample_externals 10000) [0x51]
       \<lparr>vch = 0xCD # 0x17 # replicate 10001 0xFF @ [0x2A], nReadPos = 0\<rparr>
     = Inr ([0x51, OP_FALSE, OP_RETURN],
            \<lparr>vch = 0xCD # 0x17 # replicate 10001 0xFF @ [0x2A], nReadPos = 10003\<rparr>)
   \<and> Unserialize (sample_externals 10000) []
       \<lparr>vch = 0xCD # 0x17 # replicate 10001 0xFF @ [0x2A], nReadPos = 0\<rparr>
     = Inr ([OP_FALSE, OP_RETURN],
            \<lparr>vch = 0xCD # 0x17 # replicate 10001 0xFF @ [0x2A], nReadPos = 10003\<rparr>)"
proof -
  let ?E = "sample_externals 10000"
  let ?v = "0xCD # 0x17 # replicate 10001 0xFF @ [0x2A] :: u8 list"
  have h: "ReadVarInt32 ?E \<lparr>vch = ?v, nReadPos = 0\<rparr> = Inr (10007, \<lparr>vch = ?v, nReadPos = 2\<rparr>)"
    by (simp add: sample_simps)
  have g: "nSpecialScripts \<le> 10007" by (simp add: nSpecialScripts_def)
  have m: "MAX_SCRIPT_SIZE_AFTER_GENESIS ?E < unat (10007 - nSpecialScripts)"
    by (simp add: sample_externals_def nSpecialScripts_def)
  have i: "ignore \<lparr>vch = ?v, nReadPos = 2\<rparr> (unat (10007 - nSpecialScripts))
             = Inr \<lparr>vch = ?v, nReadPos = 10003\<rparr>"
    by (simp add: ignore_def nSpecialScripts_def)
  from Unserialize_oversized_appends [OF h g m i, of "[0x51]"]
  have a: "Unserialize ?E [0x51] \<lparr>vch = ?v, nReadPos = 0\<rparr>
             = Inr ([0x51, OP_FALSE, OP_RETURN], \<lparr>vch = ?v, nReadPos = 10003\<rparr>)" by simp
  from Unserialize_oversized_appends [OF h g m i, of "[]"]
  have b: "Unserialize ?E [] \<lparr>vch = ?v, nReadPos = 0\<rparr>
             = Inr ([OP_FALSE, OP_RETURN], \<lparr>vch = ?v, nReadPos = 10003\<rparr>)" by simp
  from h g m a b show ?thesis by blast
qed

text \<open>
  C2. The source comments the oversized branch with "Overly long script, replace with
  a short invalid one", and the raw branch beside it does replace the script
  (\<^verbatim>\<open>resize\<close>, then overwrite). The oversized branch only appends: decoding a field
  that declares 10001 bytes (maximum 10000) into a compressor bound to the one-byte
  script \<^verbatim>\<open>0x51\<close> yields the three bytes \<^verbatim>\<open>0x51 0x00 0x6a\<close>, not the two-byte
  placeholder. The cursor does move past the 10001 declared bytes, which are not
  copied.
\<close>

theorem Unserialize_oversized_nonempty_script:
  "Unserialize (sample_externals 10000) [0x51]
     \<lparr>vch = 0xCD # 0x17 # replicate 10001 0xFF @ [0x2A], nReadPos = 0\<rparr>
   = Inr ([0x51, 0x00, 0x6a],
          \<lparr>vch = 0xCD # 0x17 # replicate 10001 0xFF @ [0x2A], nReadPos = 10003\<rparr>)"
  by (simp add: Unserialize_def sample_externals_def ReadVarInt_stream_def Let_def
      nSpecialScripts_def ignore_def OP_FALSE_def OP_RETURN_def)

section \<open>Properties of the ScriptCodec encoder\<close>

lemma ser_raw:
  "Compress E script = None \<Longrightarrow>
     Serialize E script s =
       write_bytes (write_bytes s (WriteVarInt32 E (of_nat (length script) + nSpecialScripts)))
         script"
  by (simp add: Serialize_def Let_def)

lemma ser_special:
  "Compress E script = Some compr \<Longrightarrow> Serialize E script s = write_bytes s compr"
  by (simp add: Serialize_def)

lemma tag_no_wrap:
  assumes "length script + 6 < 2 ^ 32"
  shows "unat (of_nat (length script) + nSpecialScripts :: u32) = length script + 6"
proof -
  have "(of_nat (length script) + nSpecialScripts :: u32) = of_nat (length script + 6)"
    by (simp add: nSpecialScripts_def)
  then show ?thesis using assms by (simp only: unat_of_nat) simp
qed

lemma vch_Serialize:
  "vch (Serialize E script s) = vch s @ vch (Serialize E script \<lparr>vch = [], nReadPos = 0\<rparr>)"
  by (simp add: Serialize_def write_bytes_def Let_def split: option.splits)

lemma Compress_Some:
  assumes "Compress E script = Some compr"
  shows "compr \<noteq> [] \<and> hd compr < 6 \<and> length (tl compr) = GetSpecialSize (ucast (hd compr))"
  using assms
  by (auto simp: Compress_def IsToKeyID_def IsToScriptID_def IsToPubKey_def GetSpecialSize_def
      split: option.splits if_splits)

text \<open>
  C5, as stated, at a script of \<open>2^32 - 6\<close> bytes that matches no special shape, with
  the maximum script size at \<open>2^32 - 1\<close>: the tag is computed in
  \<^verbatim>\<open>unsigned int\<close> and wraps to 0, which is not the length plus 6, and decoding the
  encoding takes the tag-0 branch and returns a 25-byte pay-to-public-key-hash script.
\<close>

theorem Serialize_raw_roundtrip_counterexample:
  "Compress (sample_externals 4294967295) (replicate 4294967290 0x00) = None
   \<and> length (replicate 4294967290 (0x00 :: u8))
       \<le> MAX_SCRIPT_SIZE_AFTER_GENESIS (sample_externals 4294967295)
   \<and> unat (of_nat (length (replicate 4294967290 (0x00 :: u8))) + nSpecialScripts :: u32)
       \<noteq> length (replicate 4294967290 (0x00 :: u8)) + 6
   \<and> Unserialize (sample_externals 4294967295) []
        (Serialize (sample_externals 4294967295) (replicate 4294967290 0x00)
           \<lparr>vch = [], nReadPos = 0\<rparr>)
       = Inr ([OP_DUP, OP_HASH160, 20] @ replicate 20 0x00 @ [OP_EQUALVERIFY, OP_CHECKSIG],
              \<lparr>vch = 0x00 # replicate 4294967290 0x00, nReadPos = 21\<rparr>)
   \<and> [OP_DUP, OP_HASH160, 20] @ replicate 20 0x00 @ [OP_EQUALVERIFY, OP_CHECKSIG]
       \<noteq> replicate 4294967290 (0x00 :: u8)"
proof -
  let ?E = "sample_externals 4294967295"
  let ?script = "replicate 4294967290 (0x00 :: u8)"
  have c: "Compress ?E ?script = None"
    by (simp add: Compress_def IsToKeyID_def IsToScriptID_def IsToPubKey_def)
  have m: "length ?script \<le> MAX_SCRIPT_SIZE_AFTER_GENESIS ?E"
    by (simp add: sample_externals_def)
  have t: "(of_nat (length ?script) + nSpecialScripts :: u32) = 0"
    by (simp add: nSpecialScripts_def)
  have s: "Serialize ?E ?script \<lparr>vch = [], nReadPos = 0\<rparr>
             = \<lparr>vch = 0x00 # ?script, nReadPos = 0\<rparr>"
    by (simp add: Serialize_def c t write_bytes_def) (simp add: sample_simps)
  have u: "Unserialize ?E [] \<lparr>vch = 0x00 # ?script, nReadPos = 0\<rparr>
       = Inr ([OP_DUP, OP_HASH160, 20] @ replicate 20 0x00 @ [OP_EQUALVERIFY, OP_CHECKSIG],
              \<lparr>vch = 0x00 # ?script, nReadPos = 21\<rparr>)"
    by (simp add: Unserialize_def sample_simps GetSpecialSize_def read_bytes_def Decompress_def)
  have "length ([OP_DUP, OP_HASH160, 20] @ replicate 20 0x00 @ [OP_EQUALVERIFY, OP_CHECKSIG])
          \<noteq> length ?script" by simp
  then have d: "[OP_DUP, OP_HASH160, 20] @ replicate 20 0x00 @ [OP_EQUALVERIFY, OP_CHECKSIG]
       \<noteq> ?script" by metis
  from c m t s u d show ?thesis by simp
qed

text \<open>
  C5, amended. For every script that matches no special shape and whose length plus 6
  is below \<open>2^32\<close>, \<^verbatim>\<open>Serialize\<close> appends the varint of the length plus 6 and then
  the script bytes; and when the length does not exceed the maximum and the varint
  primitive reads that tag back from where it was written, decoding from there returns
  the script byte for byte, whatever the compressor was bound to, with the cursor at the
  end of the field.
\<close>

theorem Serialize_raw_roundtrip:
  fixes E :: externals and script old :: CScript and s :: Stream
  defines "nSize \<equiv> of_nat (length script) + nSpecialScripts :: u32"
  defines "s1 \<equiv> write_bytes s (WriteVarInt32 E nSize)"
  defines "s2 \<equiv> Serialize E script s"
  assumes none: "Compress E script = None" and len: "length script + 6 < 2 ^ 32"
  shows "s2 = write_bytes s1 script
       \<and> vch s2 = vch s @ WriteVarInt32 E nSize @ script
       \<and> unat nSize = length script + 6
       \<and> (length script \<le> MAX_SCRIPT_SIZE_AFTER_GENESIS E
            \<and> ReadVarInt32 E (s2\<lparr>nReadPos := length (vch s)\<rparr>)
                = Inr (nSize, s2\<lparr>nReadPos := length (vch s1)\<rparr>)
          \<longrightarrow> Unserialize E old (s2\<lparr>nReadPos := length (vch s)\<rparr>)
                = Inr (script, s2\<lparr>nReadPos := length (vch s2)\<rparr>))"
proof (intro conjI impI)
  show w: "s2 = write_bytes s1 script"
    unfolding s2_def s1_def nSize_def using none by (rule ser_raw)
  then show v: "vch s2 = vch s @ WriteVarInt32 E nSize @ script"
    by (simp add: s1_def write_bytes_def)
  show u: "unat nSize = length script + 6"
    unfolding nSize_def using len by (rule tag_no_wrap)
  assume a: "length script \<le> MAX_SCRIPT_SIZE_AFTER_GENESIS E
            \<and> ReadVarInt32 E (s2\<lparr>nReadPos := length (vch s)\<rparr>)
                = Inr (nSize, s2\<lparr>nReadPos := length (vch s1)\<rparr>)"
  have six: "unat nSpecialScripts = 6" by (simp add: nSpecialScripts_def)
  have raw: "\<not> nSize < nSpecialScripts"
    using u six by (simp add: word_less_nat_alt)
  then have "nSpecialScripts \<le> nSize" by simp
  then have d: "unat (nSize - nSpecialScripts) = length script"
    using u six by (simp add: unat_sub)
  have small: "\<not> MAX_SCRIPT_SIZE_AFTER_GENESIS E < unat (nSize - nSpecialScripts)"
    using a d by simp
  have v1: "vch s2 = vch s1 @ script" using w by (simp add: write_bytes_def)
  have "Unserialize E old (s2\<lparr>nReadPos := length (vch s)\<rparr>)
          = read_bytes (s2\<lparr>nReadPos := length (vch s1)\<rparr>) (length script)"
    using unser_raw [OF conjunct2 [OF a] raw small] d by simp
  also have "\<dots> = Inr (script, s2\<lparr>nReadPos := length (vch s2)\<rparr>)"
    by (simp add: read_bytes_def v1)
  finally show "Unserialize E old (s2\<lparr>nReadPos := length (vch s)\<rparr>)
                = Inr (script, s2\<lparr>nReadPos := length (vch s2)\<rparr>)" .
qed

text \<open>
  A two-byte script written after one byte already in the stream, and read back.
\<close>

theorem Serialize_raw_roundtrip_witness:
  "Compress (sample_externals 10000) [0x51, 0x52] = None
   \<and> length [0x51, 0x52 :: u8] + 6 < (2::nat) ^ 32
   \<and> Serialize (sample_externals 10000) [0x51, 0x52] \<lparr>vch = [0xAA], nReadPos = 0\<rparr>
       = \<lparr>vch = [0xAA, 0x08, 0x51, 0x52], nReadPos = 0\<rparr>
   \<and> length [0x51, 0x52 :: u8] \<le> MAX_SCRIPT_SIZE_AFTER_GENESIS (sample_externals 10000)
   \<and> ReadVarInt32 (sample_externals 10000) \<lparr>vch = [0xAA, 0x08, 0x51, 0x52], nReadPos = 1\<rparr>
       = Inr (8, \<lparr>vch = [0xAA, 0x08, 0x51, 0x52], nReadPos = 2\<rparr>)
   \<and> Unserialize (sample_externals 10000) [0x01] \<lparr>vch = [0xAA, 0x08, 0x51, 0x52], nReadPos = 1\<rparr>
       = Inr ([0x51, 0x52], \<lparr>vch = [0xAA, 0x08, 0x51, 0x52], nReadPos = 4\<rparr>)"
proof -
  let ?E = "sample_externals 10000"
  let ?w = "\<lparr>vch = [0xAA, 0x08, 0x51, 0x52 :: u8], nReadPos = 0\<rparr>"
  have c: "Compress ?E [0x51, 0x52] = None"
    by (simp add: Compress_def IsToKeyID_def IsToScriptID_def IsToPubKey_def)
  have l: "length [0x51, 0x52 :: u8] + 6 < (2::nat) ^ 32" by simp
  have m: "length [0x51, 0x52 :: u8] \<le> MAX_SCRIPT_SIZE_AFTER_GENESIS ?E"
    by (simp add: sample_externals_def)
  have v: "WriteVarInt32 ?E 8 = [0x08]" by (simp add: sample_simps)
  have r: "ReadVarInt32 ?E (?w\<lparr>nReadPos := 1\<rparr>) = Inr (8, ?w\<lparr>nReadPos := 2\<rparr>)"
    by (simp add: sample_simps)
  note t = Serialize_raw_roundtrip
    [where E = ?E and script = "[0x51, 0x52]" and s = "\<lparr>vch = [0xAA], nReadPos = 0\<rparr>"
       and old = "[0x01]", OF c l]
  from t v have s: "Serialize ?E [0x51, 0x52] \<lparr>vch = [0xAA], nReadPos = 0\<rparr> = ?w"
    by (simp add: write_bytes_def nSpecialScripts_def)
  from t m r have u: "Unserialize ?E [0x01] (?w\<lparr>nReadPos := 1\<rparr>)
       = Inr ([0x51, 0x52], ?w\<lparr>nReadPos := 4\<rparr>)"
    unfolding s by (simp add: write_bytes_def nSpecialScripts_def v)
  from c l s m r u show ?thesis by simp
qed

text \<open>
  C10, as stated, at the script of \<open>2^32 - 6\<close> zero bytes: it matches no special
  shape, and its raw tag wraps to 0, inside the special range.
\<close>

theorem Serialize_tag_ranges_counterexample:
  "Compress (sample_externals 10000) (replicate 4294967290 0x00) = None
   \<and> length (replicate 4294967290 (0x00 :: u8)) + 6 = 2 ^ 32
   \<and> (of_nat (length (replicate 4294967290 (0x00 :: u8))) + nSpecialScripts :: u32) = 0
   \<and> \<not> nSpecialScripts
         \<le> (of_nat (length (replicate 4294967290 (0x00 :: u8))) + nSpecialScripts :: u32)
   \<and> Serialize (sample_externals 10000) (replicate 4294967290 0x00) \<lparr>vch = [], nReadPos = 0\<rparr>
       = \<lparr>vch = 0x00 # replicate 4294967290 0x00, nReadPos = 0\<rparr>"
  by (simp add: Compress_def IsToKeyID_def IsToScriptID_def IsToPubKey_def Serialize_def
      sample_simps write_bytes_def)

text \<open>
  C10, amended. For every script whose length plus 6 is below \<open>2^32\<close>,
  \<^verbatim>\<open>Serialize\<close> emits either the compressed form of \<^verbatim>\<open>Compress\<close>, whose first byte
  is a tag below 6 followed by \<^verbatim>\<open>GetSpecialSize(tag)\<close> bytes, or the varint of a tag
  equal to the length plus 6, which is at least 6, followed by the script: a raw tag
  is never in the special range.
\<close>

theorem Serialize_tag_ranges:
  assumes "length script + 6 < 2 ^ 32"
  shows "case Compress E script of
           Some compr \<Rightarrow>
             Serialize E script s = write_bytes s compr
             \<and> compr \<noteq> [] \<and> hd compr < 6
             \<and> length (tl compr) = GetSpecialSize (ucast (hd compr))
         | None \<Rightarrow>
             Serialize E script s =
               write_bytes
                 (write_bytes s (WriteVarInt32 E (of_nat (length script) + nSpecialScripts)))
                 script
             \<and> unat (of_nat (length script) + nSpecialScripts :: u32) = length script + 6
             \<and> nSpecialScripts \<le> (of_nat (length script) + nSpecialScripts :: u32)"
proof (cases "Compress E script")
  case None
  have u: "unat (of_nat (length script) + nSpecialScripts :: u32) = length script + 6"
    using assms by (rule tag_no_wrap)
  have "unat nSpecialScripts = 6" by (simp add: nSpecialScripts_def)
  then have "nSpecialScripts \<le> (of_nat (length script) + nSpecialScripts :: u32)"
    using u by (simp add: word_le_nat_alt)
  then show ?thesis using None u by (simp add: ser_raw)
next
  case (Some compr)
  then show ?thesis using Compress_Some [OF Some] by (simp add: ser_special)
qed

text \<open>
  A raw two-byte script and a pay-to-public-key-hash script.
\<close>

theorem Serialize_tag_ranges_witness:
  "length [0x51, 0x52 :: u8] + 6 < (2::nat) ^ 32
   \<and> Compress (sample_externals 10000) [0x51, 0x52] = None
   \<and> Serialize (sample_externals 10000) [0x51, 0x52] \<lparr>vch = [], nReadPos = 0\<rparr>
       = \<lparr>vch = [0x08, 0x51, 0x52], nReadPos = 0\<rparr>
   \<and> nSpecialScripts \<le> (of_nat (length [0x51, 0x52 :: u8]) + nSpecialScripts :: u32)
   \<and> length ([OP_DUP, OP_HASH160, 20] @ replicate 20 0xAB @ [OP_EQUALVERIFY, OP_CHECKSIG]) + 6
       < (2::nat) ^ 32
   \<and> Compress (sample_externals 10000)
         ([OP_DUP, OP_HASH160, 20] @ replicate 20 0xAB @ [OP_EQUALVERIFY, OP_CHECKSIG])
       = Some (0x00 # replicate 20 0xAB)
   \<and> Serialize (sample_externals 10000)
         ([OP_DUP, OP_HASH160, 20] @ replicate 20 0xAB @ [OP_EQUALVERIFY, OP_CHECKSIG])
         \<lparr>vch = [], nReadPos = 0\<rparr>
       = \<lparr>vch = 0x00 # replicate 20 0xAB, nReadPos = 0\<rparr>"
proof -
  let ?E = "sample_externals 10000"
  let ?p = "[OP_DUP, OP_HASH160, 20] @ replicate 20 0xAB @ [OP_EQUALVERIFY, OP_CHECKSIG]"
  let ?s = "\<lparr>vch = [], nReadPos = 0\<rparr>"
  have l1: "length [0x51, 0x52 :: u8] + 6 < (2::nat) ^ 32" by simp
  have l2: "length ?p + 6 < (2::nat) ^ 32" by simp
  have c1: "Compress ?E [0x51, 0x52] = None"
    by (simp add: Compress_def IsToKeyID_def IsToScriptID_def IsToPubKey_def)
  have c2: "Compress ?E ?p = Some (0x00 # replicate 20 0xAB)"
    by (simp add: Compress_def IsToKeyID_def nth_append)
  have v: "WriteVarInt32 ?E 8 = [0x08]" by (simp add: sample_simps)
  from Serialize_tag_ranges [OF l1, of ?E ?s] c1 v
  have a: "Serialize ?E [0x51, 0x52] ?s = \<lparr>vch = [0x08, 0x51, 0x52], nReadPos = 0\<rparr>
     \<and> nSpecialScripts \<le> (of_nat (length [0x51, 0x52 :: u8]) + nSpecialScripts :: u32)"
    by (simp add: write_bytes_def nSpecialScripts_def)
  from Serialize_tag_ranges [OF l2, of ?E ?s] c2
  have b: "Serialize ?E ?p ?s = \<lparr>vch = 0x00 # replicate 20 0xAB, nReadPos = 0\<rparr>"
    by (simp add: write_bytes_def)
  from l1 l2 c1 c2 a b show ?thesis by blast
qed

text \<open>
  C7. For a pay-to-pubkey script of a valid 65-byte key that starts with 0x04, the
  encoder selects tag 4 when the last byte of the key is even and tag 5 when it is odd,
  with the 32 bytes after the prefix as payload, and \<^verbatim>\<open>Serialize\<close> writes that tag byte
  and payload; decoding that tag and payload rebuilds the script around the original
  key, given that the external point decompression returns the key for its
  X-coordinate and parity; and \<^verbatim>\<open>Unserialize\<close> does so from the written bytes when the
  varint primitive reads the tag byte back as the tag.
\<close>

theorem Compress_uncompressed_pubkey:
  fixes E :: externals and key :: "u8 list" and old :: CScript and s :: Stream
  defines "tag \<equiv> (if even (unat (key ! 64)) then 0x04 else 0x05 :: u8)"
  defines "script \<equiv> 65 # key @ [OP_CHECKSIG]"
  defines "s2 \<equiv> Serialize E script s"
  assumes len: "length key = 65" and pre: "key ! 0 = 0x04" and valid: "IsFullyValid E key"
    and ec: "decompress_point E (take 32 (drop 1 key)) (odd (unat (key ! 64))) = Some key"
  shows "Compress E script = Some (tag # take 32 (drop 1 key))
       \<and> Decompress E (ucast tag) (take 32 (drop 1 key)) old = (True, script)
       \<and> vch s2 = vch s @ tag # take 32 (drop 1 key)
       \<and> (ReadVarInt32 E (s2\<lparr>nReadPos := length (vch s)\<rparr>)
             = Inr (ucast tag, s2\<lparr>nReadPos := length (vch s) + 1\<rparr>)
          \<longrightarrow> Unserialize E old (s2\<lparr>nReadPos := length (vch s)\<rparr>)
             = Inr (script, s2\<lparr>nReadPos := length (vch s2)\<rparr>))"
proof (intro conjI impI)
  have l: "length script = 67" using len by (simp add: script_def)
  have k: "take 65 (drop 1 script) = key" using len by (simp add: script_def)
  have n0: "script ! 0 = 65" by (simp add: script_def)
  have n1: "script ! 1 = 0x04" using len pre by (simp add: script_def nth_append)
  have n66: "script ! 66 = OP_CHECKSIG" using len by (simp add: script_def nth_append)
  have a: "IsToKeyID script = None" using l by (simp add: IsToKeyID_def)
  have b: "IsToScriptID script = None" using l by (simp add: IsToScriptID_def)
  have c: "IsToPubKey E script = Some key"
    unfolding IsToPubKey_def using l k n0 n1 n66 valid by simp
  show compr: "Compress E script = Some (tag # take 32 (drop 1 key))"
    unfolding Compress_def a b c tag_def using pre by simp
  have t: "(ucast tag :: u32) = (if even (unat (key ! 64)) then 4 else 5)"
    by (simp add: tag_def)
  show dec: "Decompress E (ucast tag) (take 32 (drop 1 key)) old = (True, script)"
    unfolding t script_def using ec
    by (cases "even (unat (key ! 64))") (simp_all add: Decompress_def)
  show v: "vch s2 = vch s @ tag # take 32 (drop 1 key)"
    unfolding s2_def by (simp add: ser_special [OF compr] write_bytes_def)
  assume r: "ReadVarInt32 E (s2\<lparr>nReadPos := length (vch s)\<rparr>)
             = Inr (ucast tag, s2\<lparr>nReadPos := length (vch s) + 1\<rparr>)"
  have sp: "(ucast tag :: u32) < nSpecialScripts"
    by (simp add: t nSpecialScripts_def)
  have g: "GetSpecialSize (ucast tag) = 32" by (simp add: t GetSpecialSize_def)
  have p: "length (take 32 (drop 1 key)) = 32" using len by simp
  have "Unserialize E old (s2\<lparr>nReadPos := length (vch s)\<rparr>)
          = (case read_bytes (s2\<lparr>nReadPos := length (vch s) + 1\<rparr>) 32 of
               Inl e \<Rightarrow> Inl e
             | Inr (vch_in, s3) \<Rightarrow> Inr (snd (Decompress E (ucast tag) vch_in old), s3))"
    using unser_special [OF r sp] g by simp
  also have "read_bytes (s2\<lparr>nReadPos := length (vch s) + 1\<rparr>) 32
          = Inr (take 32 (drop 1 key), s2\<lparr>nReadPos := length (vch s2)\<rparr>)"
    using p by (simp add: read_bytes_def v)
  finally show "Unserialize E old (s2\<lparr>nReadPos := length (vch s)\<rparr>)
             = Inr (script, s2\<lparr>nReadPos := length (vch s2)\<rparr>)"
    using dec by simp
qed

text \<open>
  The sample key with an odd and with an even last byte.
\<close>

theorem Compress_uncompressed_pubkey_witness:
  "length (sample_point True) = 65 \<and> sample_point True ! 0 = 0x04
   \<and> IsFullyValid (sample_externals 10000) (sample_point True)
   \<and> odd (unat (sample_point True ! 64))
   \<and> decompress_point (sample_externals 10000) (take 32 (drop 1 (sample_point True))) True
        = Some (sample_point True)
   \<and> Compress (sample_externals 10000) (65 # sample_point True @ [OP_CHECKSIG])
        = Some (0x05 # replicate 32 0x01)
   \<and> Decompress (sample_externals 10000) 5 (replicate 32 0x01) []
        = (True, 65 # sample_point True @ [OP_CHECKSIG])
   \<and> Serialize (sample_externals 10000) (65 # sample_point True @ [OP_CHECKSIG])
        \<lparr>vch = [], nReadPos = 0\<rparr> = \<lparr>vch = 0x05 # replicate 32 0x01, nReadPos = 0\<rparr>
   \<and> Unserialize (sample_externals 10000) [] \<lparr>vch = 0x05 # replicate 32 0x01, nReadPos = 0\<rparr>
        = Inr (65 # sample_point True @ [OP_CHECKSIG],
               \<lparr>vch = 0x05 # replicate 32 0x01, nReadPos = 33\<rparr>)
   \<and> even (unat (sample_point False ! 64))
   \<and> Compress (sample_externals 10000) (65 # sample_point False @ [OP_CHECKSIG])
        = Some (0x04 # replicate 32 0x01)
   \<and> Decompress (sample_externals 10000) 4 (replicate 32 0x01) []
        = (True, 65 # sample_point False @ [OP_CHECKSIG])"
proof -
  let ?E = "sample_externals 10000"
  let ?s = "\<lparr>vch = [], nReadPos = 0\<rparr>"
  let ?w = "\<lparr>vch = 0x05 # replicate 32 0x01, nReadPos = 0\<rparr>"
  have l: "length (sample_point b) = 65" for b by (simp add: sample_point_def)
  have z: "sample_point b ! 0 = 0x04" for b by (simp add: sample_point_def)
  have v: "IsFullyValid ?E (sample_point b)" for b by (simp add: sample_externals_def)
  have x: "take 32 (drop 1 (sample_point b)) = replicate 32 0x01" for b
    by (simp add: sample_point_def)
  have y1: "sample_point True ! 64 = 0x01" by (simp add: sample_point_def nth_append)
  have y0: "sample_point False ! 64 = 0x00" by (simp add: sample_point_def nth_append)
  have o: "odd (unat (sample_point True ! 64))" by (simp add: y1)
  have e: "even (unat (sample_point False ! 64))" by (simp add: y0)
  have d1: "decompress_point ?E (take 32 (drop 1 (sample_point True)))
              (odd (unat (sample_point True ! 64))) = Some (sample_point True)"
    unfolding x y1 by (simp add: sample_externals_def)
  have d0: "decompress_point ?E (take 32 (drop 1 (sample_point False)))
              (odd (unat (sample_point False ! 64))) = Some (sample_point False)"
    unfolding x y0 by (simp add: sample_externals_def)
  note t1 = Compress_uncompressed_pubkey [OF l z v d1, where old = "[]" and s = ?s]
  note t0 = Compress_uncompressed_pubkey [OF l z v d0, where old = "[]" and s = ?s]
  from t1 have a: "Compress ?E (65 # sample_point True @ [OP_CHECKSIG])
        = Some (0x05 # replicate 32 0x01)
     \<and> Decompress ?E 5 (replicate 32 0x01) [] = (True, 65 # sample_point True @ [OP_CHECKSIG])"
    unfolding x y1 by simp
  from t1 have vs: "vch (Serialize ?E (65 # sample_point True @ [OP_CHECKSIG]) ?s)
        = 0x05 # replicate 32 0x01"
    unfolding x y1 by simp
  have np: "nReadPos (Serialize ?E (65 # sample_point True @ [OP_CHECKSIG]) ?s) = 0"
    by (simp add: Serialize_def write_bytes_def Let_def split: option.splits)
  have ser: "Serialize ?E (65 # sample_point True @ [OP_CHECKSIG]) ?s = ?w"
    using vs np by (cases "Serialize ?E (65 # sample_point True @ [OP_CHECKSIG]) ?s") simp
  have r: "ReadVarInt32 ?E ?w = Inr (5, \<lparr>vch = 0x05 # replicate 32 0x01, nReadPos = 1\<rparr>)"
    by (simp add: sample_simps)
  from t1 r have u: "Unserialize ?E [] ?w
        = Inr (65 # sample_point True @ [OP_CHECKSIG],
               \<lparr>vch = 0x05 # replicate 32 0x01, nReadPos = 33\<rparr>)"
    unfolding x y1 ser by simp
  from t0 have b: "Compress ?E (65 # sample_point False @ [OP_CHECKSIG])
        = Some (0x04 # replicate 32 0x01)
     \<and> Decompress ?E 4 (replicate 32 0x01) [] = (True, 65 # sample_point False @ [OP_CHECKSIG])"
    unfolding x y0 by simp
  from d1 have d: "decompress_point ?E (take 32 (drop 1 (sample_point True))) True
        = Some (sample_point True)" unfolding y1 by simp
  from l z v o e d a b ser u show ?thesis by blast
qed

section \<open>Properties of the TransactionOutputCodec\<close>

text \<open>
  C8. Writing puts the varint of \<^verbatim>\<open>CompressAmount(nValue)\<close> first and the encoding of
  the script second, on the wire in that order; reading takes the varint first, sets
  \<^verbatim>\<open>nValue\<close> to \<^verbatim>\<open>DecompressAmount\<close> of it, and then decodes the script from where
  the varint ended. A failure of either read is the failure of the whole.
\<close>

theorem SerializationOp_order:
  "SerializationOp_write E txout s
     = Serialize E (scriptPubKey txout)
         (write_bytes s (WriteVarInt64 E (CompressAmount (nValue txout))))
   \<and> vch (SerializationOp_write E txout s)
     = vch s @ WriteVarInt64 E (CompressAmount (nValue txout))
         @ vch (Serialize E (scriptPubKey txout) \<lparr>vch = [], nReadPos = 0\<rparr>)
   \<and> SerializationOp_read E txout s
     = (case ReadVarInt64 E s of
          Inl e \<Rightarrow> Inl e
        | Inr (nVal, s1) \<Rightarrow>
            (case Unserialize E (scriptPubKey txout) s1 of
               Inl e \<Rightarrow> Inl e
             | Inr (script', s2) \<Rightarrow>
                 Inr (\<lparr>nValue = DecompressAmount nVal, scriptPubKey = script'\<rparr>, s2)))"
proof (intro conjI)
  show w: "SerializationOp_write E txout s
     = Serialize E (scriptPubKey txout)
         (write_bytes s (WriteVarInt64 E (CompressAmount (nValue txout))))"
    by (simp add: SerializationOp_write_def Let_def)
  show "vch (SerializationOp_write E txout s)
     = vch s @ WriteVarInt64 E (CompressAmount (nValue txout))
         @ vch (Serialize E (scriptPubKey txout) \<lparr>vch = [], nReadPos = 0\<rparr>)"
    unfolding w by (subst vch_Serialize) (simp add: write_bytes_def)
  show "SerializationOp_read E txout s
     = (case ReadVarInt64 E s of
          Inl e \<Rightarrow> Inl e
        | Inr (nVal, s1) \<Rightarrow>
            (case Unserialize E (scriptPubKey txout) s1 of
               Inl e \<Rightarrow> Inl e
             | Inr (script', s2) \<Rightarrow>
                 Inr (\<lparr>nValue = DecompressAmount nVal, scriptPubKey = script'\<rparr>, s2)))"
    by (cases txout) (simp add: SerializationOp_read_def Let_def split: sum.splits prod.splits)
qed


end
